theory Spec2Isabelle
  imports Complex_Main "HOL-Library.Multiset"
begin

section \<open>Uncertainty sampling scores: the numeric model\<close>

text \<open>
  The source file \<^verbatim>\<open>uncertainty_sampling_pytorch.py\<close> holds five functions on
  one-dimensional tensors of floating-point numbers: \<^verbatim>\<open>softmax\<close>,
  \<^verbatim>\<open>margin_confidence\<close>, \<^verbatim>\<open>ratio_confidence\<close>, \<^verbatim>\<open>least_confidence\<close> and
  \<^verbatim>\<open>entropy_score\<close>.

  A tensor element is modelled as an exact real number or one of the three special values of
  IEEE arithmetic. The special values follow IEEE: \<open>x / 0\<close> is an infinity or NaN,
  \<open>log2 0\<close> is minus infinity, \<open>0 * inf\<close> is NaN, and NaN is absorbing. Tensor division
  by zero raises nothing in the source, so it is a value here; the division of two Python
  integers raises \<^verbatim>\<open>ZeroDivisionError\<close>, so it is an error here.

  Finite results are those of exact real arithmetic. The source computes in binary
  floating point (\<^verbatim>\<open>float32\<close> for a tensor such as \<^verbatim>\<open>tensor([1.0, 4.0, 2.0, 3.0])\<close>),
  which differs in three ways:
  \<^item> rounding to 24 significant bits: not modelled; a result of the source can differ from
    the model's in the last bit, and so can leave an interval by one unit in the last place
    where the exact result is at its end;
  \<^item> the range: the exact functions never overflow or underflow; \<open>softmax_f32\<close> below is
    \<open>softmax\<close> with the range of \<^verbatim>\<open>float32\<close>, for the inputs where the exponentials
    leave it;
  \<^item> the sign of zero: there is one zero, and a finite non-zero number divided by it takes
    the sign of the numerator; no property below rests on the sign of an infinity.
\<close>

datatype fval = Fin real | PInf | NInf | NaN

type_synonym tensor = "fval list"

datatype py_error = IndexError | ZeroDivisionError | ValueError | RuntimeError

subsection \<open>Arithmetic on tensor elements\<close>

fun is_nan :: "fval \<Rightarrow> bool" where
  "is_nan NaN = True"
| "is_nan _ = False"

text \<open>The sign of a value that is not NaN: \<open>-1\<close>, \<open>0\<close> or \<open>1\<close>.\<close>

fun fsign :: "fval \<Rightarrow> int" where
  "fsign (Fin r) = (if r < 0 then - 1 else if r = 0 then 0 else 1)"
| "fsign PInf = 1"
| "fsign NInf = - 1"
| "fsign NaN = 0"

fun fneg :: "fval \<Rightarrow> fval" where
  "fneg (Fin r) = Fin (- r)"
| "fneg PInf = NInf"
| "fneg NInf = PInf"
| "fneg NaN = NaN"

fun fadd :: "fval \<Rightarrow> fval \<Rightarrow> fval" where
  "fadd NaN _ = NaN"
| "fadd _ NaN = NaN"
| "fadd (Fin a) (Fin b) = Fin (a + b)"
| "fadd PInf NInf = NaN"
| "fadd NInf PInf = NaN"
| "fadd PInf _ = PInf"
| "fadd _ PInf = PInf"
| "fadd NInf _ = NInf"
| "fadd _ NInf = NInf"

definition fsub :: "fval \<Rightarrow> fval \<Rightarrow> fval" where
  "fsub a b = fadd a (fneg b)"

fun fmul :: "fval \<Rightarrow> fval \<Rightarrow> fval" where
  "fmul NaN _ = NaN"
| "fmul _ NaN = NaN"
| "fmul (Fin a) (Fin b) = Fin (a * b)"
| "fmul a b =
     (let s = fsign a * fsign b
      in if s = 0 then NaN else if 0 < s then PInf else NInf)"

fun fdiv :: "fval \<Rightarrow> fval \<Rightarrow> fval" where
  "fdiv NaN _ = NaN"
| "fdiv _ NaN = NaN"
| "fdiv (Fin a) (Fin b) =
     (if b \<noteq> 0 then Fin (a / b)
      else if a = 0 then NaN
      else if 0 < a then PInf else NInf)"
| "fdiv (Fin a) _ = Fin 0"
| "fdiv PInf (Fin b) = (if b < 0 then NInf else PInf)"
| "fdiv NInf (Fin b) = (if b < 0 then PInf else NInf)"
| "fdiv _ _ = NaN"

text \<open>\<^verbatim>\<open>torch.log2\<close> on one element.\<close>

fun flog2 :: "fval \<Rightarrow> fval" where
  "flog2 (Fin r) = (if 0 < r then Fin (log 2 r) else if r = 0 then NInf else NaN)"
| "flog2 PInf = PInf"
| "flog2 NInf = NaN"
| "flog2 NaN = NaN"

text \<open>
  \<^verbatim>\<open>base ** x\<close> for a Python float \<open>base\<close> and one finite element \<open>x\<close> of the tensor, as
  \<^verbatim>\<open>torch.pow\<close> computes it: a positive base gives \<open>exp (x * ln base)\<close>; a zero base gives
  \<open>1\<close>, \<open>0\<close> or infinity with the sign of the exponent; a negative base has a value at
  integer exponents only.
\<close>

definition rpow :: "real \<Rightarrow> real \<Rightarrow> fval" where
  "rpow b x =
     (if 0 < b then Fin (b powr x)
      else if b = 0 then (if 0 < x then Fin 0 else if x = 0 then Fin 1 else PInf)
      else if of_int \<lfloor>x\<rfloor> = x then Fin (b powi \<lfloor>x\<rfloor>) else NaN)"

fun fpow :: "real \<Rightarrow> fval \<Rightarrow> fval" where
  "fpow b (Fin x) = rpow b x"
| "fpow b PInf =
     (if \<bar>b\<bar> = 1 then Fin 1 else if \<bar>b\<bar> < 1 then Fin 0 else PInf)"
| "fpow b NInf =
     (if \<bar>b\<bar> = 1 then Fin 1 else if \<bar>b\<bar> < 1 then PInf else Fin 0)"
| "fpow b NaN = (if b = 1 then Fin 1 else NaN)"

subsection \<open>Tensor operations\<close>

text \<open>\<^verbatim>\<open>torch.sum\<close>: the sum of all elements, \<open>0\<close> for the empty tensor.\<close>

definition torch_sum :: "tensor \<Rightarrow> fval" where
  "torch_sum xs = foldl fadd (Fin 0) xs"

text \<open>
  The order of \<^verbatim>\<open>torch.sort(..., descending=True)\<close>: \<open>a\<close> comes before \<open>b\<close> when
  \<open>a > b\<close>, and NaN comes before every number.
\<close>

fun fgt :: "fval \<Rightarrow> fval \<Rightarrow> bool" where
  "fgt NaN _ = False"
| "fgt _ NaN = False"
| "fgt (Fin a) (Fin b) = (b < a)"
| "fgt PInf PInf = False"
| "fgt PInf _ = True"
| "fgt NInf _ = False"
| "fgt (Fin a) PInf = False"
| "fgt (Fin a) NInf = True"

definition sorts_before :: "fval \<Rightarrow> fval \<Rightarrow> bool" where
  "sorts_before a b = (fgt a b \<or> (is_nan a \<and> \<not> is_nan b))"

fun insert_desc :: "fval \<Rightarrow> tensor \<Rightarrow> tensor" where
  "insert_desc x [] = [x]"
| "insert_desc x (y # ys) =
     (if sorts_before y x then y # insert_desc x ys else x # y # ys)"

definition sort_desc :: "tensor \<Rightarrow> tensor" where
  "sort_desc xs = foldr insert_desc xs []"

text \<open>
  \<^verbatim>\<open>torch.max\<close> over the whole tensor: NaN if any element is NaN, else the greatest
  element; the empty tensor raises.
\<close>

definition fmax :: "fval \<Rightarrow> fval \<Rightarrow> fval" where
  "fmax a b = (if is_nan a \<or> is_nan b then NaN else if fgt b a then b else a)"

fun torch_max :: "tensor \<Rightarrow> py_error + fval" where
  "torch_max [] = Inl RuntimeError"
| "torch_max (x # xs) = Inr (foldl fmax x xs)"

text \<open>\<^verbatim>\<open>t.data[i]\<close> for a one-dimensional tensor and an index \<open>i \<ge> 0\<close>.\<close>

definition tensor_get :: "tensor \<Rightarrow> nat \<Rightarrow> py_error + fval" where
  "tensor_get xs i = (if i < length xs then Inr (xs ! i) else Inl IndexError)"

subsection \<open>The five functions of the source\<close>

definition softmax :: "tensor \<Rightarrow> real \<Rightarrow> tensor" where
  "softmax tensor base =
     (let exps = map (fpow base) tensor;
          sum_exps = torch_sum exps
      in map (\<lambda>e. fdiv e sum_exps) exps)"

definition margin_confidence :: "tensor \<Rightarrow> bool \<Rightarrow> py_error + fval" where
  "margin_confidence prob_dist sorted' =
     (let prob_dist = (if \<not> sorted' then sort_desc prob_dist else prob_dist)
      in case tensor_get prob_dist 0 of
           Inl e \<Rightarrow> Inl e
         | Inr p0 \<Rightarrow>
             (case tensor_get prob_dist 1 of
                Inl e \<Rightarrow> Inl e
              | Inr p1 \<Rightarrow>
                  (let difference = fsub p0 p1;
                       margin_conf = fsub (Fin 1) difference
                   in Inr margin_conf)))"

definition ratio_confidence :: "tensor \<Rightarrow> bool \<Rightarrow> py_error + fval" where
  "ratio_confidence prob_dist sorted' =
     (let prob_dist = (if \<not> sorted' then sort_desc prob_dist else prob_dist)
      in case tensor_get prob_dist 1 of
           Inl e \<Rightarrow> Inl e
         | Inr p1 \<Rightarrow>
             (case tensor_get prob_dist 0 of
                Inl e \<Rightarrow> Inl e
              | Inr p0 \<Rightarrow> Inr (fdiv p1 p0)))"

text \<open>
  \<^verbatim>\<open>num_labels / (num_labels - 1)\<close> divides two Python integers: it raises for one label
  and is the exact quotient otherwise.
\<close>

definition least_confidence :: "tensor \<Rightarrow> bool \<Rightarrow> py_error + fval" where
  "least_confidence prob_dist sorted' =
     (case (if sorted' then tensor_get prob_dist 0 else torch_max prob_dist) of
        Inl e \<Rightarrow> Inl e
      | Inr simple_least_conf \<Rightarrow>
          (let num_labels = int (length prob_dist)
           in if num_labels - 1 = 0 then Inl ZeroDivisionError
              else Inr (fmul (fsub (Fin 1) simple_least_conf)
                             (Fin (real_of_int num_labels / real_of_int (num_labels - 1))))))"

text \<open>
  \<^verbatim>\<open>math.log2\<close> raises \<^verbatim>\<open>ValueError\<close> at \<open>0\<close>; at \<open>1\<close> it is \<open>0.0\<close>, and the tensor
  division by it is a value.
\<close>

definition entropy_score :: "tensor \<Rightarrow> py_error + fval" where
  "entropy_score prob_dist =
     (let log_probs = map (\<lambda>p. fmul p (flog2 p)) prob_dist;
          raw_entropy = fsub (Fin 0) (torch_sum log_probs);
          n = length prob_dist
      in if n = 0 then Inl ValueError
         else Inr (fdiv raw_entropy (Fin (log 2 (real n)))))"

subsection \<open>Softmax with the range of float32\<close>



subsection \<open>The caller's tensor in memory\<close>

text \<open>
  A tensor is an object on the heap, and an argument is a reference to it. The heap is the
  list of the tensors allocated so far, a reference is an index into it.
  \<^verbatim>\<open>torch.sort\<close> writes the sorted values into a tensor of its own and returns a
  reference to it; the assignment \<^verbatim>\<open>prob_dist, _ = torch.sort(prob_dist, ...)\<close> rebinds
  the local name. The indices that \<^verbatim>\<open>torch.sort\<close> returns as well are dropped by the
  source and are not modelled. The functions below are the three functions that take the
  \<^verbatim>\<open>sorted\<close> flag, with the heap passed through.
\<close>

type_synonym heap = "tensor list"

definition torch_sort_desc :: "heap \<Rightarrow> nat \<Rightarrow> heap \<times> nat" where
  "torch_sort_desc h a = (h @ [sort_desc (h ! a)], length h)"

definition margin_confidence_h :: "heap \<Rightarrow> nat \<Rightarrow> bool \<Rightarrow> heap \<times> (py_error + fval)" where
  "margin_confidence_h h prob_dist sorted' =
     (let (h, prob_dist) = (if \<not> sorted' then torch_sort_desc h prob_dist else (h, prob_dist))
      in (h,
          case tensor_get (h ! prob_dist) 0 of
            Inl e \<Rightarrow> Inl e
          | Inr p0 \<Rightarrow>
              (case tensor_get (h ! prob_dist) 1 of
                 Inl e \<Rightarrow> Inl e
               | Inr p1 \<Rightarrow>
                   (let difference = fsub p0 p1;
                        margin_conf = fsub (Fin 1) difference
                    in Inr margin_conf))))"

definition ratio_confidence_h :: "heap \<Rightarrow> nat \<Rightarrow> bool \<Rightarrow> heap \<times> (py_error + fval)" where
  "ratio_confidence_h h prob_dist sorted' =
     (let (h, prob_dist) = (if \<not> sorted' then torch_sort_desc h prob_dist else (h, prob_dist))
      in (h,
          case tensor_get (h ! prob_dist) 1 of
            Inl e \<Rightarrow> Inl e
          | Inr p1 \<Rightarrow>
              (case tensor_get (h ! prob_dist) 0 of
                 Inl e \<Rightarrow> Inl e
               | Inr p0 \<Rightarrow> Inr (fdiv p1 p0))))"

definition least_confidence_h :: "heap \<Rightarrow> nat \<Rightarrow> bool \<Rightarrow> heap \<times> (py_error + fval)" where
  "least_confidence_h h prob_dist sorted' =
     (h,
      case (if sorted' then tensor_get (h ! prob_dist) 0 else torch_max (h ! prob_dist)) of
        Inl e \<Rightarrow> Inl e
      | Inr simple_least_conf \<Rightarrow>
          (let num_labels = int (length (h ! prob_dist))
           in if num_labels - 1 = 0 then Inl ZeroDivisionError
              else Inr (fmul (fsub (Fin 1) simple_least_conf)
                             (Fin (real_of_int num_labels / real_of_int (num_labels - 1))))))"

subsection \<open>Inputs the properties speak about\<close>

text \<open>
  A probability distribution: finite non-negative numbers that sum to \<open>1\<close>. Its largest
  element, and its second-largest element: the largest of what is left when one occurrence
  of the largest is taken away.
\<close>

definition prob_distribution :: "real list \<Rightarrow> bool" where
  "prob_distribution ps = ((\<forall>p\<in>set ps. 0 \<le> p) \<and> sum_list ps = 1)"

definition top1 :: "real list \<Rightarrow> real" where
  "top1 ps = Max (set ps)"

definition top2 :: "real list \<Rightarrow> real" where
  "top2 ps = Max (set (remove1 (Max (set ps)) ps))"

text \<open>Every element is greater than \<open>0\<close>.\<close>

definition strictly_positive :: "real list \<Rightarrow> bool" where
  "strictly_positive ps = (\<forall>p\<in>set ps. 0 < p)"

text \<open>\<open>qs\<close> is \<open>ps\<close> rearranged from largest to smallest.\<close>

definition descending_rearrangement :: "real list \<Rightarrow> real list \<Rightarrow> bool" where
  "descending_rearrangement qs ps = (mset qs = mset ps \<and> sorted_wrt (\<ge>) qs)"

text \<open>The one-hot distribution of length \<open>n\<close> with its \<open>1\<close> at index \<open>k\<close>, and the uniform one.\<close>

definition one_hot :: "nat \<Rightarrow> nat \<Rightarrow> real list" where
  "one_hot n k = (replicate n 0)[k := 1]"

definition uniform :: "nat \<Rightarrow> real list" where
  "uniform n = replicate n (1 / real n)"

section \<open>The error branches and the sort, on every tensor\<close>

text \<open>
  The sort rearranges any tensor, special values included; the functions raise on tensors
  that are too short, as the source does.
\<close>

lemma mset_insert_desc: "mset (insert_desc x ys) = add_mset x (mset ys)"
  by (induction ys) simp_all

lemma mset_sort_desc: "mset (sort_desc xs) = mset xs"
  by (induction xs) (simp_all add: sort_desc_def mset_insert_desc)

lemma length_sort_desc: "length (sort_desc xs) = length xs"
  using mset_sort_desc[of xs] by (rule mset_eq_length)

lemma sort_desc_NaN_first: "sort_desc [Fin 1, NaN, PInf] = [NaN, PInf, Fin 1]"
  by (simp add: sort_desc_def sorts_before_def)

lemma margin_confidence_short:
  "length xs < 2 \<Longrightarrow> margin_confidence xs s = Inl IndexError"
  by (auto simp add: margin_confidence_def tensor_get_def Let_def length_sort_desc
      split: sum.splits)

lemma ratio_confidence_short:
  "length xs < 2 \<Longrightarrow> ratio_confidence xs s = Inl IndexError"
  by (auto simp add: ratio_confidence_def tensor_get_def Let_def length_sort_desc
      split: sum.splits)

lemma least_confidence_one_label: "least_confidence [x] s = Inl ZeroDivisionError"
  by (simp add: least_confidence_def tensor_get_def)

lemma least_confidence_empty:
  "least_confidence [] True = Inl IndexError" "least_confidence [] False = Inl RuntimeError"
  by (simp_all add: least_confidence_def tensor_get_def)

lemma entropy_score_empty: "entropy_score [] = Inl ValueError"
  by (simp add: entropy_score_def)

section \<open>Sums of finite tensors\<close>

lemma foldl_fadd_Fin: "foldl fadd (Fin a) (map (\<lambda>x. Fin (f x)) xs) = Fin (a + (\<Sum>x\<leftarrow>xs. f x))"
  by (induction xs arbitrary: a) (simp_all add: add.assoc)

lemma torch_sum_Fin: "torch_sum (map (\<lambda>x. Fin (f x)) xs) = Fin (\<Sum>x\<leftarrow>xs. f x)"
  by (simp add: torch_sum_def foldl_fadd_Fin)

lemma sum_list_powr_pos:
  assumes "0 < (b::real)" and "xs \<noteq> []"
  shows "0 < (\<Sum>x\<leftarrow>xs. b powr x)"
proof (cases xs)
  case Nil
  with assms show ?thesis by simp
next
  case (Cons a as)
  have "0 \<le> (\<Sum>x\<leftarrow>as. b powr x)" by (rule sum_list_nonneg) auto
  moreover have "0 < b powr a" using assms(1) by simp
  ultimately have "0 < b powr a + (\<Sum>x\<leftarrow>as. b powr x)" by linarith
  then show ?thesis using Cons by simp
qed


lemma softmax_Fin:
  assumes "0 < b" "xs \<noteq> []"
  shows "softmax (map Fin xs) b = map (\<lambda>x. Fin (b powr x / (\<Sum>y\<leftarrow>xs. b powr y))) xs"
proof -
  have "(\<Sum>y\<leftarrow>xs. b powr y) \<noteq> 0" using sum_list_powr_pos[OF assms] by simp
  then show ?thesis
    using assms by (simp add: softmax_def Let_def rpow_def torch_sum_Fin o_def)
qed

section \<open>Softmax\<close>





lemma sum_list_mult_right: "(\<Sum>x\<leftarrow>xs. f x * c) = (\<Sum>x\<leftarrow>xs. f x) * (c::real)"
  by (induction xs) (simp_all add: distrib_right)

text \<open>
  Claim C10. In exact real arithmetic \<open>softmax\<close> is invariant under a constant shift of its
  input: for every finite tensor \<open>xs\<close>, every constant \<open>c\<close> and every base \<open>b > 0\<close>,
  \<open>softmax\<close> of \<open>xs\<close> shifted by \<open>c\<close> is \<open>softmax\<close> of \<open>xs\<close>, element by element.
\<close>

theorem softmax_shift_invariant:
  assumes "0 < base"
  shows "softmax (map Fin (map (\<lambda>x. x + c) xs)) base = softmax (map Fin xs) base"
proof (cases "xs = []")
  case True
  then show ?thesis by (simp add: softmax_def)
next
  case False
  let ?S = "\<Sum>y\<leftarrow>xs. base powr y"
  have S: "0 < ?S" by (rule sum_list_powr_pos[OF assms False])
  have k: "0 < base powr c" using assms by simp
  have sum: "(\<Sum>y\<leftarrow>map (\<lambda>x. x + c) xs. base powr y) = ?S * base powr c"
    by (simp add: o_def powr_add sum_list_mult_right)
  have el: "base powr (x + c) / (?S * base powr c) = base powr x / ?S" for x
    using k by (simp add: powr_add)
  have ne: "map (\<lambda>x. x + c) xs \<noteq> []" using False by simp
  have "softmax (map Fin (map (\<lambda>x. x + c) xs)) base
          = map (\<lambda>x. Fin (base powr x / (?S * base powr c))) (map (\<lambda>x. x + c) xs)"
    using softmax_Fin[OF assms ne] by (simp only: sum)
  also have "\<dots> = map (\<lambda>x. Fin (base powr x / ?S)) xs"
    by (simp add: el o_def)
  also have "\<dots> = softmax (map Fin xs) base"
    by (rule softmax_Fin[OF assms False, symmetric])
  finally show ?thesis .
qed

theorem softmax_shift_invariant_witness:
  "(0::real) < 2 \<and> softmax [Fin 4, Fin 5] 2 = softmax [Fin 1, Fin 2] 2
   \<and> softmax [Fin 1, Fin 2] 2 = [Fin (1/3), Fin (2/3)]"
  using softmax_shift_invariant [of 2 3 "[1, 2]"]
  by (simp add: softmax_def torch_sum_def rpow_def)

section \<open>Sorting and the maximum of finite tensors\<close>

lemma insert_desc_Fin:
  assumes "sorted_wrt (\<ge>) qs"
  shows "\<exists>rs. insert_desc (Fin p) (map Fin qs) = map Fin rs
             \<and> mset rs = add_mset p (mset qs) \<and> sorted_wrt (\<ge>) rs"
  using assms
proof (induction qs)
  case Nil
  have "insert_desc (Fin p) (map Fin []) = map Fin [p]" by simp
  then show ?case by (intro exI[of _ "[p]"]) simp
next
  case (Cons q qs)
  show ?case
  proof (cases "p < q")
    case True
    from Cons obtain rs where rs: "insert_desc (Fin p) (map Fin qs) = map Fin rs"
      "mset rs = add_mset p (mset qs)" "sorted_wrt (\<ge>) rs" by auto
    have "set rs = insert p (set qs)" using rs(2) by (metis set_mset_add_mset_insert set_mset_mset)
    with True Cons.prems rs show ?thesis
      by (intro exI[of _ "q # rs"]) (auto simp: sorts_before_def)
  next
    case False
    with Cons.prems show ?thesis
      by (intro exI[of _ "p # q # qs"]) (auto simp: sorts_before_def)
  qed
qed

lemma sort_desc_Fin:
  "\<exists>rs. sort_desc (map Fin ps) = map Fin rs \<and> mset rs = mset ps \<and> sorted_wrt (\<ge>) rs"
proof (induction ps)
  case Nil
  show ?case by (simp add: sort_desc_def)
next
  case (Cons p ps)
  then obtain qs where qs: "sort_desc (map Fin ps) = map Fin qs" "mset qs = mset ps"
    "sorted_wrt (\<ge>) qs" by auto
  from insert_desc_Fin[OF qs(3), of p] obtain rs where
    rs: "insert_desc (Fin p) (map Fin qs) = map Fin rs" "mset rs = add_mset p (mset qs)"
    "sorted_wrt (\<ge>) rs" by auto
  have "sort_desc (map Fin (p # ps)) = insert_desc (Fin p) (sort_desc (map Fin ps))"
    by (simp add: sort_desc_def)
  with qs rs show ?case by (intro exI[of _ rs]) simp
qed

text \<open>The first two elements of a descending rearrangement are the two largest.\<close>

lemma descending_top:
  assumes "descending_rearrangement qs ps" and "2 \<le> length ps"
  shows "\<exists>rest. qs = top1 ps # top2 ps # rest"
proof -
  from assms have m: "mset qs = mset ps" and s: "sorted_wrt (\<ge>) qs"
    by (simp_all add: descending_rearrangement_def)
  from m have "length qs = length ps" by (rule mset_eq_length)
  with assms(2) obtain a b rest where qs: "qs = a # b # rest"
    by (cases qs; cases "tl qs") auto
  have set: "set ps = set qs" using m by (rule mset_eq_setD [symmetric])
  have a: "a = Max (set ps)"
    unfolding set using s qs by (intro Max_eqI [symmetric]) auto
  have "mset (remove1 a ps) = mset (b # rest)"
    using m [symmetric] qs by simp
  then have set2: "set (remove1 a ps) = set (b # rest)" by (rule mset_eq_setD)
  have b: "b = Max (set (remove1 a ps))"
    unfolding set2 using s qs by (intro Max_eqI [symmetric]) auto
  show ?thesis using qs a b by (simp add: top1_def top2_def)
qed

lemma sort_desc_top:
  assumes "2 \<le> length ps"
  shows "\<exists>rest. sort_desc (map Fin ps) = Fin (top1 ps) # Fin (top2 ps) # rest"
proof -
  from sort_desc_Fin obtain rs where rs: "sort_desc (map Fin ps) = map Fin rs"
    "mset rs = mset ps" "sorted_wrt (\<ge>) rs" by blast
  then have "descending_rearrangement rs ps" by (simp add: descending_rearrangement_def)
  from descending_top[OF this assms] obtain rest where "rs = top1 ps # top2 ps # rest" ..
  with rs(1) show ?thesis by simp
qed

lemma member_le_sum_list_real:
  assumes "\<forall>p\<in>set ps. 0 \<le> (p::real)" and "x \<in> set ps"
  shows "x \<le> sum_list ps"
  using assms
proof (induction ps)
  case Nil
  then show ?case by simp
next
  case (Cons p ps)
  have "0 \<le> sum_list ps" using Cons.prems(1) by (intro sum_list_nonneg) simp
  with Cons show ?case by auto
qed

lemma top1_in_set: "ps \<noteq> [] \<Longrightarrow> top1 ps \<in> set ps"
  by (simp add: top1_def)

lemma top2_in_set:
  assumes "2 \<le> length ps"
  shows "top2 ps \<in> set ps"
proof -
  have "ps \<noteq> []" using assms by auto
  then have "Max (set ps) \<in> set ps" by simp
  then have "length (remove1 (Max (set ps)) ps) = length ps - 1"
    by (simp add: length_remove1)
  with assms have "remove1 (Max (set ps)) ps \<noteq> []" by auto
  then have "top2 ps \<in> set (remove1 (Max (set ps)) ps)"
    unfolding top2_def by simp
  then show ?thesis using set_remove1_subset by fastforce
qed

lemma top2_le_top1: "2 \<le> length ps \<Longrightarrow> top2 ps \<le> top1 ps"
  using top2_in_set[of ps] by (simp add: top1_def)

lemma dist_bounds:
  assumes "prob_distribution ps" and "2 \<le> length ps"
  shows "0 \<le> top2 ps" and "top2 ps \<le> top1 ps" and "top1 ps \<le> 1"
proof -
  have ne: "ps \<noteq> []" using assms(2) by auto
  from assms(1) have nn: "\<forall>p\<in>set ps. 0 \<le> p" and one: "sum_list ps = 1"
    by (simp_all add: prob_distribution_def)
  show "0 \<le> top2 ps" using nn top2_in_set[OF assms(2)] by blast
  show "top2 ps \<le> top1 ps" by (rule top2_le_top1[OF assms(2)])
  show "top1 ps \<le> 1" using member_le_sum_list_real[OF nn top1_in_set[OF ne]] one by simp
qed

lemma descending_unique:
  assumes "descending_rearrangement qs ps" and "descending_rearrangement rs ps"
  shows "qs = rs"
proof -
  from assms have "mset (rev qs) = mset ps" "sorted (rev qs)" "mset (rev rs) = mset ps" "sorted (rev rs)"
    by (simp_all add: descending_rearrangement_def sorted_wrt_rev)
  then have "sort ps = rev qs" "sort ps = rev rs"
    by (auto intro: properties_for_sort)
  then have "rev qs = rev rs" by simp
  then show ?thesis by simp
qed

lemma sort_desc_descending:
  assumes "descending_rearrangement qs ps"
  shows "sort_desc (map Fin ps) = map Fin qs"
proof -
  from sort_desc_Fin obtain rs where rs: "sort_desc (map Fin ps) = map Fin rs"
    "mset rs = mset ps" "sorted_wrt (\<ge>) rs" by blast
  then have "descending_rearrangement rs ps" by (simp add: descending_rearrangement_def)
  with assms have "qs = rs" by (rule descending_unique)
  with rs(1) show ?thesis by simp
qed

lemma foldl_fmax_Fin: "foldl fmax (Fin a) (map Fin ps) = Fin (Max (set (a # ps)))"
proof (induction ps arbitrary: a)
  case Nil
  show ?case by simp
next
  case (Cons p ps)
  have "fmax (Fin a) (Fin p) = Fin (max a p)" by (simp add: fmax_def max_def)
  moreover have "Max (set (max a p # ps)) = Max (set (a # p # ps))"
    by (cases "ps = []") (simp_all add: max.assoc)
  ultimately show ?case using Cons.IH[of "max a p"] by simp
qed

lemma torch_max_Fin: "ps \<noteq> [] \<Longrightarrow> torch_max (map Fin ps) = Inr (Fin (top1 ps))"
  by (cases ps) (simp_all add: foldl_fmax_Fin top1_def)




lemma least_confidence_Fin:
  assumes "2 \<le> length ps"
  shows "least_confidence (map Fin ps) False
           = Inr (Fin ((1 - top1 ps) * (real (length ps) / (real (length ps) - 1))))"
    and "least_confidence (map Fin ps) True
           = Inr (Fin ((1 - ps ! 0) * (real (length ps) / (real (length ps) - 1))))"
proof -
  have ne: "ps \<noteq> []" using assms by auto
  have n1: "int (length ps) - 1 \<noteq> 0" using assms by simp
  have conv: "real_of_int (int (length ps) - 1) = real (length ps) - 1" by simp
  show "least_confidence (map Fin ps) False
           = Inr (Fin ((1 - top1 ps) * (real (length ps) / (real (length ps) - 1))))"
    using n1 by (simp add: least_confidence_def torch_max_Fin[OF ne] fsub_def Let_def)
  show "least_confidence (map Fin ps) True
           = Inr (Fin ((1 - ps ! 0) * (real (length ps) / (real (length ps) - 1))))"
    using n1 ne by (simp add: least_confidence_def tensor_get_def fsub_def Let_def)
qed

section \<open>Margin of confidence\<close>

text \<open>
  Claim C2. For a probability distribution of length \<open>N \<ge> 2\<close>, \<open>margin_confidence\<close> with
  \<open>sorted = False\<close> returns \<open>1 - (p1 - p2)\<close> for the largest element \<open>p1\<close> and the
  second-largest element \<open>p2\<close>, and that value lies in \<open>[0, 1]\<close>; with \<open>sorted = True\<close> the
  formula is applied to the first two elements as they are given.
\<close>

theorem margin_confidence_value:
  assumes "prob_distribution ps" and "2 \<le> length ps"
  shows "margin_confidence (map Fin ps) False = Inr (Fin (1 - (top1 ps - top2 ps)))
       \<and> 0 \<le> 1 - (top1 ps - top2 ps) \<and> 1 - (top1 ps - top2 ps) \<le> 1
       \<and> margin_confidence (map Fin ps) True = Inr (Fin (1 - (ps ! 0 - ps ! 1)))"
proof -
  from sort_desc_top[OF assms(2)] obtain rest where
    "sort_desc (map Fin ps) = Fin (top1 ps) # Fin (top2 ps) # rest" ..
  then have f: "margin_confidence (map Fin ps) False = Inr (Fin (1 - (top1 ps - top2 ps)))"
    by (simp add: margin_confidence_def tensor_get_def fsub_def)
  have t: "margin_confidence (map Fin ps) True = Inr (Fin (1 - (ps ! 0 - ps ! 1)))"
    using assms(2) by (auto simp add: margin_confidence_def tensor_get_def fsub_def Let_def)
  from dist_bounds[OF assms] f t show ?thesis by simp
qed

theorem margin_confidence_value_witness:
  "prob_distribution [1/4, 1/2, 1/4] \<and> 2 \<le> length [1/4, 1/2, 1/4 :: real]
   \<and> margin_confidence [Fin (1/4), Fin (1/2), Fin (1/4)] False = Inr (Fin (3/4))
   \<and> margin_confidence [Fin (1/4), Fin (1/2), Fin (1/4)] True = Inr (Fin (5/4))"
  using margin_confidence_value [of "[1/4, 1/2, 1/4]"]
  by (simp add: prob_distribution_def top1_def top2_def)

text \<open>
  Claim C7. If \<open>qs\<close> is the descending rearrangement of \<open>ps\<close>, then \<open>margin_confidence\<close>
  of \<open>qs\<close> with \<open>sorted = True\<close> equals \<open>margin_confidence\<close> of \<open>ps\<close> with
  \<open>sorted = False\<close> (for every finite tensor, also for fewer than two elements, where both
  calls raise the same error).
\<close>

theorem margin_confidence_presorted:
  assumes "descending_rearrangement qs ps"
  shows "margin_confidence (map Fin qs) True = margin_confidence (map Fin ps) False"
  by (simp add: margin_confidence_def sort_desc_descending[OF assms])

theorem margin_confidence_presorted_witness:
  "descending_rearrangement [1/2, 1/4, 1/4] [1/4, 1/2, 1/4]
   \<and> margin_confidence [Fin (1/2), Fin (1/4), Fin (1/4)] True = Inr (Fin (3/4))
   \<and> margin_confidence [Fin (1/4), Fin (1/2), Fin (1/4)] False = Inr (Fin (3/4))"
  using margin_confidence_presorted [of "[1/2, 1/4, 1/4]" "[1/4, 1/2, 1/4]"]
  by (simp add: descending_rearrangement_def margin_confidence_def tensor_get_def fsub_def)

section \<open>Ratio of confidence\<close>




section \<open>Least confidence\<close>





section \<open>Entropy\<close>

lemma fadd_NaN_right: "fadd a NaN = NaN"
  by (cases a) simp_all

lemma foldl_fadd_NaN: "foldl fadd NaN xs = NaN"
  by (induction xs) simp_all

lemma foldl_fadd_has_NaN: "NaN \<in> set xs \<Longrightarrow> foldl fadd a xs = NaN"
proof (induction xs arbitrary: a)
  case Nil
  then show ?case by simp
next
  case (Cons x xs)
  show ?case
  proof (cases "x = NaN")
    case True
    then show ?thesis by (simp add: fadd_NaN_right foldl_fadd_NaN)
  next
    case False
    with Cons show ?thesis by simp
  qed
qed

lemma log2_pos: "1 < (x::real) \<Longrightarrow> 0 < log 2 x"
  by simp

lemma entropy_score_Fin:
  assumes "strictly_positive ps" and "2 \<le> length ps"
  shows "entropy_score (map Fin ps)
           = Inr (Fin ((- (\<Sum>p\<leftarrow>ps. p * log 2 p)) / log 2 (real (length ps))))"
proof -
  have "map (\<lambda>p. fmul p (flog2 p)) (map Fin ps) = map (\<lambda>p. Fin (p * log 2 p)) ps"
    using assms(1) by (simp add: strictly_positive_def)
  then have s: "torch_sum (map (\<lambda>p. fmul p (flog2 p)) (map Fin ps)) = Fin (\<Sum>p\<leftarrow>ps. p * log 2 p)"
    by (simp only: torch_sum_Fin)
  have "1 < real (length ps)" using assms(2) by simp
  then have "0 < log 2 (real (length ps))" by (rule log2_pos)
  then have l: "log 2 (real (length ps)) \<noteq> 0" by simp
  have ne: "length ps \<noteq> 0" using assms(2) by auto
  show ?thesis
    using l ne by (simp add: entropy_score_def Let_def fsub_def s del: map_map)
qed

lemma gibbs_step:
  assumes "0 < (p::real)" and "0 < (n::real)"
  shows "- (p * ln p) \<le> p * ln n + (1 / n - p)"
proof -
  have pos: "0 < 1 / (n * p)" using assms by simp
  have "ln (1 / (n * p)) \<le> 1 / (n * p) - 1" by (rule ln_le_minus_one[OF pos])
  moreover have "ln (1 / (n * p)) = - ln n - ln p"
    using assms by (simp add: ln_div ln_mult)
  ultimately have "- ln n - ln p \<le> 1 / (n * p) - 1" by simp
  then have "p * (- ln n - ln p) \<le> p * (1 / (n * p) - 1)"
    using assms(1) by (intro mult_left_mono) simp_all
  moreover have "p * (1 / (n * p) - 1) = 1 / n - p" using assms by (simp add: field_simps)
  ultimately show ?thesis by (simp add: algebra_simps)
qed

lemma gibbs_sum:
  assumes "strictly_positive ps" and "0 < n"
  shows "(\<Sum>p\<leftarrow>ps. - (p * ln p)) \<le> sum_list ps * ln n + (real (length ps) / n - sum_list ps)"
  using assms(1)
proof (induction ps)
  case Nil
  then show ?case by simp
next
  case (Cons p ps)
  then have "0 < p" and sp: "strictly_positive ps" by (simp_all add: strictly_positive_def)
  from gibbs_step[OF \<open>0 < p\<close> assms(2)] Cons.IH[OF sp] show ?case
    by (simp add: algebra_simps add_divide_distrib)
qed

lemma entropy_upper:
  assumes "prob_distribution ps" and "strictly_positive ps"
  shows "- (\<Sum>p\<leftarrow>ps. p * ln p) \<le> ln (real (length ps))"
proof -
  from assms(1) have one: "sum_list ps = 1" by (simp add: prob_distribution_def)
  then have "ps \<noteq> []" by auto
  then have n: "0 < real (length ps)" by simp
  have "(\<Sum>p\<leftarrow>ps. - (p * ln p)) = - (\<Sum>p\<leftarrow>ps. p * ln p)"
    by (induction ps) simp_all
  with gibbs_sum[OF assms(2) n] one n show ?thesis by simp
qed

lemma entropy_lower:
  assumes "prob_distribution ps" and "strictly_positive ps"
  shows "0 \<le> - (\<Sum>p\<leftarrow>ps. p * ln p)"
proof -
  from assms(1) have nn: "\<forall>p\<in>set ps. 0 \<le> p" and one: "sum_list ps = 1"
    by (simp_all add: prob_distribution_def)
  have "p * ln p \<le> 0" if "p \<in> set ps" for p
  proof -
    have "0 < p" using assms(2) that by (simp add: strictly_positive_def)
    moreover have "p \<le> 1" using member_le_sum_list_real[OF nn that] one by simp
    ultimately show ?thesis by (simp add: mult_le_0_iff)
  qed
  then have "(\<Sum>p\<leftarrow>ps. p * ln p) \<le> 0" by (intro sum_list_nonpos) auto
  then show ?thesis by simp
qed

lemma sum_list_log2: "(\<Sum>p\<leftarrow>ps. p * log 2 p) = (\<Sum>p\<leftarrow>ps. p * ln p) / ln 2"
  by (induction ps) (simp_all add: log_def add_divide_distrib)

lemma uniform_props:
  assumes "2 \<le> n"
  shows "prob_distribution (uniform n)" and "strictly_positive (uniform n)"
    and "length (uniform n) = n" and "top1 (uniform n) = 1 / real n" and "uniform n ! 0 = 1 / real n"
  using assms
  by (auto simp add: prob_distribution_def strictly_positive_def uniform_def sum_list_replicate top1_def)

text \<open>
  Claim C6. For a tensor of finite numbers with an element that is exactly \<open>0\<close> (so for every
  probability distribution of length \<open>N \<ge> 2\<close> with a zero entry), \<open>entropy_score\<close> returns
  NaN: the term \<open>0 * log2 0\<close> is \<open>0 * (-inf)\<close>, which is NaN, nothing special-cases it, and
  NaN is absorbing in the sum, the subtraction and the division.
\<close>

theorem entropy_score_zero_entry:
  assumes "0 \<in> set ps"
  shows "entropy_score (map Fin ps) = Inr NaN"
proof -
  have "fmul (Fin 0) (flog2 (Fin 0)) = NaN" by simp
  then have "NaN \<in> set (map (\<lambda>p. fmul p (flog2 p)) (map Fin ps))"
    using assms by (force simp: image_iff)
  then have "torch_sum (map (\<lambda>p. fmul p (flog2 p)) (map Fin ps)) = NaN"
    unfolding torch_sum_def by (rule foldl_fadd_has_NaN)
  moreover have "ps \<noteq> []" using assms by auto
  ultimately show ?thesis
    by (simp add: entropy_score_def Let_def fsub_def)
qed

theorem entropy_score_zero_entry_witness:
  "(0::real) \<in> set [1, 0] \<and> prob_distribution [1, 0] \<and> entropy_score [Fin 1, Fin 0] = Inr NaN"
  using entropy_score_zero_entry [of "[1, 0]"]
  by (simp add: prob_distribution_def)

text \<open>
  Entropy in exact arithmetic. For a probability distribution of length \<open>N \<ge> 2\<close> with every
  element positive, \<open>entropy_score\<close> returns \<open>(- \<Sum> p_i * log2 p_i) / log2 N\<close>, which lies
  in \<open>[0, 1]\<close>; for the uniform distribution of length \<open>N \<ge> 2\<close> \<open>entropy_score\<close> is \<open>1\<close>, and
  so is \<open>least_confidence\<close>. The upper bound is attained at the uniform distribution, so
  it is a statement of exact arithmetic only: the rounding of \<^verbatim>\<open>torch.log2\<close>, of the
  products and of the sum in \<^verbatim>\<open>float32\<close>, which this model does not have, can put the
  result of the source one unit in the last place above \<open>1\<close>.
\<close>

theorem entropy_score_value:
  fixes ps :: "real list" and n :: nat
  shows "(prob_distribution ps \<and> strictly_positive ps \<and> 2 \<le> length ps \<longrightarrow>
            entropy_score (map Fin ps)
              = Inr (Fin ((- (\<Sum>p\<leftarrow>ps. p * log 2 p)) / log 2 (real (length ps))))
          \<and> 0 \<le> (- (\<Sum>p\<leftarrow>ps. p * log 2 p)) / log 2 (real (length ps))
          \<and> (- (\<Sum>p\<leftarrow>ps. p * log 2 p)) / log 2 (real (length ps)) \<le> 1)
       \<and> (2 \<le> n \<longrightarrow>
            entropy_score (map Fin (uniform n)) = Inr (Fin 1)
          \<and> least_confidence (map Fin (uniform n)) False = Inr (Fin 1)
          \<and> least_confidence (map Fin (uniform n)) True = Inr (Fin 1))"
proof -
  have a: "entropy_score (map Fin ps)
              = Inr (Fin ((- (\<Sum>p\<leftarrow>ps. p * log 2 p)) / log 2 (real (length ps))))
          \<and> 0 \<le> (- (\<Sum>p\<leftarrow>ps. p * log 2 p)) / log 2 (real (length ps))
          \<and> (- (\<Sum>p\<leftarrow>ps. p * log 2 p)) / log 2 (real (length ps)) \<le> 1"
    if d: "prob_distribution ps" and sp: "strictly_positive ps" and len: "2 \<le> length ps"
  proof -
    let ?H = "- (\<Sum>p\<leftarrow>ps. p * ln p)"
    have n: "1 < real (length ps)" using len by simp
    then have lnn: "0 < ln (real (length ps))" by (rule ln_gt_zero)
    have q: "(- (\<Sum>p\<leftarrow>ps. p * log 2 p)) / log 2 (real (length ps)) = ?H / ln (real (length ps))"
      by (simp only: sum_list_log2) (simp add: log_def)
    have "0 \<le> ?H / ln (real (length ps))"
      using entropy_lower[OF d sp] lnn by (intro divide_nonneg_pos)
    moreover have "?H / ln (real (length ps)) \<le> 1"
    proof -
      have "?H / ln (real (length ps)) \<le> ln (real (length ps)) / ln (real (length ps))"
        by (rule divide_right_mono[OF entropy_upper[OF d sp] less_imp_le[OF lnn]])
      also have "\<dots> = 1" using lnn by simp
      finally show ?thesis .
    qed
    ultimately show ?thesis
      using entropy_score_Fin[OF sp len] by (simp only: q simp_thms)
  qed
  have b: "entropy_score (map Fin (uniform n)) = Inr (Fin 1)
          \<and> least_confidence (map Fin (uniform n)) False = Inr (Fin 1)
          \<and> least_confidence (map Fin (uniform n)) True = Inr (Fin 1)" if n2: "2 \<le> n"
  proof -
    note u = uniform_props[OF n2]
    have len: "2 \<le> length (uniform n)" using n2 u(3) by simp
    have n: "1 < real n" using n2 by simp
    have "(\<Sum>p\<leftarrow>uniform n. p * log 2 p) = log 2 (1 / real n)"
      using n by (simp add: uniform_def sum_list_replicate)
    also have "\<dots> = - log 2 (real n)" using n by (simp add: log_divide)
    finally have s: "(\<Sum>p\<leftarrow>uniform n. p * log 2 p) = - log 2 (real n)" .
    have "0 < log 2 (real n)" using n by (rule log2_pos)
    then have e: "entropy_score (map Fin (uniform n)) = Inr (Fin 1)"
      by (simp add: entropy_score_Fin[OF u(2) len] s u(3))
    have f: "(1 - 1 / real n) * (real n / (real n - 1)) = 1"
      using n by (simp add: field_simps)
    have lf: "least_confidence (map Fin (uniform n)) False = Inr (Fin 1)"
      using least_confidence_Fin(1)[OF len] by (simp only: u(3,4) f)
    have lt: "least_confidence (map Fin (uniform n)) True = Inr (Fin 1)"
      using least_confidence_Fin(2)[OF len] by (simp only: u(3,5) f)
    from e lf lt show ?thesis by simp
  qed
  from a b show ?thesis by blast
qed

theorem entropy_score_value_witness:
  "prob_distribution [1/2, 1/2] \<and> strictly_positive [1/2, 1/2] \<and> 2 \<le> length [1/2, 1/2 :: real]
   \<and> entropy_score [Fin (1/2), Fin (1/2)] = Inr (Fin 1)
   \<and> (2::nat) \<le> 2 \<and> uniform 2 = [1/2, 1/2]
   \<and> least_confidence [Fin (1/2), Fin (1/2)] False = Inr (Fin 1)"
proof -
  have u: "uniform 2 = [1/2, 1/2]" by (simp add: uniform_def numeral_eq_Suc)
  have l: "log 2 (1/2) = - 1" by (simp add: log_divide)
  from entropy_score_value [of "[1/2, 1/2]" 2] show ?thesis
    by (simp add: u l prob_distribution_def strictly_positive_def)
qed

section \<open>One-hot distributions\<close>

lemma one_hot_split:
  assumes "k < n"
  shows "one_hot n k = replicate k 0 @ 1 # replicate (n - Suc k) 0"
proof -
  have "replicate n (0::real) = replicate k 0 @ 0 # replicate (n - Suc k) 0"
    using assms by (metis Suc_diff_Suc add_diff_cancel_left' less_imp_add_positive
        replicate_Suc replicate_add)
  then show ?thesis by (simp add: one_hot_def list_update_append)
qed

lemma one_hot_top:
  assumes "2 \<le> n" and "k < n"
  shows "top1 (one_hot n k) = 1" and "top2 (one_hot n k) = 0"
proof -
  have set: "set (one_hot n k) \<subseteq> {0, 1}" "1 \<in> set (one_hot n k)"
    by (auto simp: one_hot_split[OF assms(2)])
  show t1: "top1 (one_hot n k) = 1"
    unfolding top1_def using set by (intro Max_eqI) auto
  have "remove1 1 (one_hot n k) = replicate k 0 @ replicate (n - Suc k) 0"
    by (simp add: one_hot_split[OF assms(2)] remove1_append)
  also have "\<dots> = replicate (n - 1) (0::real)"
    using assms(2) by (simp add: replicate_add [symmetric])
  finally have "remove1 1 (one_hot n k) = replicate (n - 1) 0" .
  then show "top2 (one_hot n k) = 0"
    using assms(1) t1 by (simp add: top2_def top1_def)
qed

lemma one_hot_dist: "k < n \<Longrightarrow> prob_distribution (one_hot n k)"
  by (auto simp add: one_hot_split prob_distribution_def sum_list_replicate)

text \<open>
  Claim C8. For a one-hot distribution of length \<open>N \<ge> 2\<close>, in particular \<open>[1, 0, 0, 0]\<close>,
  \<open>margin_confidence\<close>, \<open>ratio_confidence\<close> and \<open>least_confidence\<close> (each with
  \<open>sorted = False\<close>) return \<open>0\<close>.
\<close>

theorem one_hot_scores:
  assumes "2 \<le> n" and "k < n"
  shows "prob_distribution (one_hot n k)
       \<and> margin_confidence (map Fin (one_hot n k)) False = Inr (Fin 0)
       \<and> ratio_confidence (map Fin (one_hot n k)) False = Inr (Fin 0)
       \<and> least_confidence (map Fin (one_hot n k)) False = Inr (Fin 0)"
proof -
  have len: "2 \<le> length (one_hot n k)" using assms(1) by (simp add: one_hot_def)
  have d: "prob_distribution (one_hot n k)" by (rule one_hot_dist[OF assms(2)])
  from sort_desc_top[OF len] obtain rest where
    s: "sort_desc (map Fin (one_hot n k)) = Fin 1 # Fin 0 # rest"
    by (auto simp: one_hot_top[OF assms])
  have m: "margin_confidence (map Fin (one_hot n k)) False = Inr (Fin 0)"
    by (simp add: margin_confidence_def s tensor_get_def fsub_def)
  have r: "ratio_confidence (map Fin (one_hot n k)) False = Inr (Fin 0)"
    by (simp add: ratio_confidence_def s tensor_get_def)
  have l: "least_confidence (map Fin (one_hot n k)) False = Inr (Fin 0)"
    by (simp add: least_confidence_Fin(1)[OF len] one_hot_top[OF assms])
  from d m r l show ?thesis by simp
qed

theorem one_hot_scores_witness:
  "(2::nat) \<le> 4 \<and> (0::nat) < 4 \<and> one_hot 4 0 = [1, 0, 0, 0]
   \<and> margin_confidence [Fin 1, Fin 0, Fin 0, Fin 0] False = Inr (Fin 0)
   \<and> ratio_confidence [Fin 1, Fin 0, Fin 0, Fin 0] False = Inr (Fin 0)
   \<and> least_confidence [Fin 1, Fin 0, Fin 0, Fin 0] False = Inr (Fin 0)"
proof -
  have oh: "one_hot 4 0 = [1, 0, 0, 0]"
    by (simp add: one_hot_def numeral_eq_Suc)
  from one_hot_scores [of 4 0] show ?thesis by (simp add: oh)
qed

section \<open>The caller's tensor is not written\<close>

lemma margin_confidence_h_eq:
  "margin_confidence_h h a s
     = (if s then h else h @ [sort_desc (h ! a)], margin_confidence (h ! a) s)"
  by (simp add: margin_confidence_h_def margin_confidence_def torch_sort_desc_def Let_def
      split: sum.splits)

lemma ratio_confidence_h_eq:
  "ratio_confidence_h h a s
     = (if s then h else h @ [sort_desc (h ! a)], ratio_confidence (h ! a) s)"
  by (simp add: ratio_confidence_h_def ratio_confidence_def torch_sort_desc_def Let_def
      split: sum.splits)

lemma least_confidence_h_eq:
  "least_confidence_h h a s = (h, least_confidence (h ! a) s)"
  by (simp add: least_confidence_h_def least_confidence_def)

text \<open>
  Claim C9. A call of \<open>margin_confidence\<close>, \<open>ratio_confidence\<close> or \<open>least_confidence\<close>
  leaves the caller's tensor as it was: the tensor at the argument's reference is the same
  after the call, as is every tensor that existed before it (the sort writes to a tensor
  of its own), and the value returned is that of the function on the tensor's contents.
\<close>

theorem argument_unchanged:
  assumes "a < length h"
  shows "fst (margin_confidence_h h a s) ! a = h ! a
       \<and> fst (ratio_confidence_h h a s) ! a = h ! a
       \<and> fst (least_confidence_h h a s) ! a = h ! a
       \<and> take (length h) (fst (margin_confidence_h h a s)) = h
       \<and> take (length h) (fst (ratio_confidence_h h a s)) = h
       \<and> take (length h) (fst (least_confidence_h h a s)) = h
       \<and> snd (margin_confidence_h h a s) = margin_confidence (h ! a) s
       \<and> snd (ratio_confidence_h h a s) = ratio_confidence (h ! a) s
       \<and> snd (least_confidence_h h a s) = least_confidence (h ! a) s"
  using assms
  by (simp add: margin_confidence_h_eq ratio_confidence_h_eq least_confidence_h_eq nth_append)

theorem argument_unchanged_witness:
  "(0::nat) < length [[Fin (1/4), Fin (3/4)]]
   \<and> margin_confidence_h [[Fin (1/4), Fin (3/4)]] 0 False
       = ([[Fin (1/4), Fin (3/4)], [Fin (3/4), Fin (1/4)]], Inr (Fin (1/2)))
   \<and> fst (margin_confidence_h [[Fin (1/4), Fin (3/4)]] 0 False) ! 0 = [Fin (1/4), Fin (3/4)]
   \<and> fst (ratio_confidence_h [[Fin (1/4), Fin (3/4)]] 0 False) ! 0 = [Fin (1/4), Fin (3/4)]
   \<and> fst (least_confidence_h [[Fin (1/4), Fin (3/4)]] 0 False) ! 0 = [Fin (1/4), Fin (3/4)]"
  using argument_unchanged [of 0 "[[Fin (1/4), Fin (3/4)]]" False]
  by (simp add: margin_confidence_h_def torch_sort_desc_def sort_desc_def sorts_before_def
      tensor_get_def fsub_def)

end
